theory Spec2Isabelle
  imports Main "HOL-Library.Word" "HOL-Library.Signed_Division" "HOL-Library.Sublist"
begin

chapter \<open>The model\<close>

section \<open>Go runtime: panics, integer conversion, remainder, slice indexing\<close>

text \<open>
  A run-time panic of Go is a value of the model: a division by zero, or a slice index
  out of range. Every function that divides or indexes returns \<open>panic + 'a\<close>.
\<close>

datatype panic = IndexOutOfRange | DivideByZero

text \<open>
  \<open>int(x)\<close> for \<open>x\<close> of type \<open>uint32\<close>. Go's \<open>int\<close> is 64 bits wide on the
  platforms the gateway is built for: the value is zero-extended to 64 bits and read as
  two's complement.
\<close>

definition go_int :: "32 word \<Rightarrow> int" where
  "go_int w = sint (ucast w :: 64 word)"

text \<open>Go's \<open>a % b\<close>: truncated towards zero, panics when \<open>b\<close> is zero.\<close>

definition go_rem :: "int \<Rightarrow> int \<Rightarrow> panic + int" where
  "go_rem a b = (if b = 0 then Inl DivideByZero else Inr (a smod b))"

text \<open>Go's \<open>xs[i]\<close>: panics outside \<open>0 \<le> i < len(xs)\<close>.\<close>

definition go_index :: "'a list \<Rightarrow> int \<Rightarrow> panic + 'a" where
  "go_index xs i =
     (if 0 \<le> i \<and> i < int (length xs) then Inr (xs ! nat i) else Inl IndexOutOfRange)"

section \<open>balancer/round\_robin.go\<close>

text \<open>
  The balancer's state between calls, and a call as one transition of it. The mutex and
  the single memory accesses of a call are in the section on calls running concurrently,
  which relates its runs to these transitions.
\<close>

record RoundRobinBalancer =
  backends :: "string list"
  counter :: "32 word"

definition NewRoundRobinBalancer :: "string list \<Rightarrow> RoundRobinBalancer" where
  "NewRoundRobinBalancer bs = \<lparr>backends = bs, counter = 0\<rparr>"

text \<open>
  \<open>Next\<close> returns the address (or the panic) and the balancer after the call.
  \<open>atomic.AddUint32\<close> wraps around at \<open>2 ^ 32\<close> and returns the new value.
\<close>

definition Next :: "RoundRobinBalancer \<Rightarrow> (panic + string) \<times> RoundRobinBalancer" where
  "Next b =
     (if length (backends b) = 0 then (Inr '''', b)
      else
        let index = counter b + 1;
            b' = b\<lparr>counter := index\<rparr>
        in (case go_rem (go_int (index - 1)) (int (length (backends b))) of
              Inl p \<Rightarrow> (Inl p, b')
            | Inr i \<Rightarrow> (go_index (backends b) i, b')))"

definition UpdateBackends :: "RoundRobinBalancer \<Rightarrow> string list \<Rightarrow> RoundRobinBalancer" where
  "UpdateBackends b bs = b\<lparr>backends := bs, counter := 0\<rparr>"

definition GetBackends :: "RoundRobinBalancer \<Rightarrow> string list" where
  "GetBackends b = [] @ backends b"

text \<open>\<open>m\<close> successive calls of \<open>Next\<close>: the results in call order, and the final state.\<close>

fun Next_times :: "nat \<Rightarrow> RoundRobinBalancer \<Rightarrow> (panic + string) list \<times> RoundRobinBalancer" where
  "Next_times 0 b = ([], b)"
| "Next_times (Suc m) b =
     (case Next b of (r, b') \<Rightarrow> (case Next_times m b' of (rs, b'') \<Rightarrow> (r # rs, b'')))"

section \<open>balancer/round\_robin.go: calls running concurrently\<close>

text \<open>
  The balancer in memory. A slice is its header of three words: the address of the
  backing array, the length and the capacity. \<open>arrays m a\<close> is what is stored from
  address \<open>a\<close> on. The field \<open>mu\<close> is a \<open>sync.RWMutex\<close>: whether a writer holds
  it, and how many readers do.
\<close>

record slice =
  array :: nat
  len :: nat
  cap :: nat

record Memory =
  arrays :: "nat \<Rightarrow> string list"
  b_backends :: slice
  b_counter :: "32 word"
  b_mu_writer :: bool
  b_mu_readerCount :: nat

text \<open>
  The elements of a slice, a slice that lies inside the stored array, and the balancer
  of section \<open>balancer/round_robin.go\<close> that a memory holds.
\<close>

definition slice_elems :: "(nat \<Rightarrow> string list) \<Rightarrow> slice \<Rightarrow> string list" where
  "slice_elems as s = take (len s) (as (array s))"

definition valid_slice :: "(nat \<Rightarrow> string list) \<Rightarrow> slice \<Rightarrow> bool" where
  "valid_slice as s = (len s \<le> cap s \<and> cap s \<le> length (as (array s)))"

definition balancer_of :: "Memory \<Rightarrow> RoundRobinBalancer" where
  "balancer_of m = \<lparr>backends = slice_elems (arrays m) (b_backends m), counter = b_counter m\<rparr>"

text \<open>
  A call of \<open>Next\<close>, one lock operation or memory access per step. \<open>RLock\<close> goes
  ahead when no writer holds the mutex; otherwise the goroutine is blocked and the
  call stays where it is. The deferred \<open>RUnlock\<close> runs on a return and on a panic
  alike. The length of \<open>b.backends\<close> is read for the test, for the remainder and
  for the bounds check of the index expression; the element is then loaded through the
  array pointer. A load outside the stored array is a memory fault (\<open>NextFault\<close>).
\<close>

datatype Next_pc = NextRLock | NextLen | NextAdd | NextRem "32 word" | NextBounds int
  | NextLoad int | NextRUnlock "panic + string" | NextFault | NextReturned "panic + string"

fun Next_step :: "Next_pc \<Rightarrow> Memory \<Rightarrow> Next_pc \<times> Memory" where
  "Next_step NextRLock m =
     (if b_mu_writer m then (NextRLock, m)
      else (NextLen, m\<lparr>b_mu_readerCount := b_mu_readerCount m + 1\<rparr>))"
| "Next_step NextLen m =
     (if len (b_backends m) = 0 then (NextRUnlock (Inr ''''), m) else (NextAdd, m))"
| "Next_step NextAdd m =
     (let index = b_counter m + 1 in (NextRem index, m\<lparr>b_counter := index\<rparr>))"
| "Next_step (NextRem index) m =
     (case go_rem (go_int (index - 1)) (int (len (b_backends m))) of
        Inl p \<Rightarrow> (NextRUnlock (Inl p), m)
      | Inr i \<Rightarrow> (NextBounds i, m))"
| "Next_step (NextBounds i) m =
     (if 0 \<le> i \<and> i < int (len (b_backends m)) then (NextLoad i, m)
      else (NextRUnlock (Inl IndexOutOfRange), m))"
| "Next_step (NextLoad i) m =
     (let a = arrays m (array (b_backends m))
      in if nat i < length a then (NextRUnlock (Inr (a ! nat i)), m) else (NextFault, m))"
| "Next_step (NextRUnlock r) m =
     (NextReturned r, m\<lparr>b_mu_readerCount := b_mu_readerCount m - 1\<rparr>)"
| "Next_step NextFault m = (NextFault, m)"
| "Next_step (NextReturned r) m = (NextReturned r, m)"

text \<open>
  A call of \<open>UpdateBackends(backends)\<close>. \<open>Lock\<close> goes ahead when nobody holds the
  mutex. The assignment \<open>b.backends = backends\<close> stores the three words of the header
  one after the other; no element of an array is written. The deferred \<open>Unlock\<close>
  runs after the counter is stored.
\<close>

datatype UpdateBackends_pc = UpdLock | UpdArray | UpdLen | UpdCap | UpdStoreCounter | UpdUnlock
  | UpdReturned

fun UpdateBackends_step :: "slice \<Rightarrow> UpdateBackends_pc \<Rightarrow> Memory \<Rightarrow> UpdateBackends_pc \<times> Memory" where
  "UpdateBackends_step bs UpdLock m =
     (if b_mu_writer m \<or> b_mu_readerCount m > 0 then (UpdLock, m)
      else (UpdArray, m\<lparr>b_mu_writer := True\<rparr>))"
| "UpdateBackends_step bs UpdArray m =
     (UpdLen, m\<lparr>b_backends := (b_backends m)\<lparr>array := array bs\<rparr>\<rparr>)"
| "UpdateBackends_step bs UpdLen m =
     (UpdCap, m\<lparr>b_backends := (b_backends m)\<lparr>len := len bs\<rparr>\<rparr>)"
| "UpdateBackends_step bs UpdCap m =
     (UpdStoreCounter, m\<lparr>b_backends := (b_backends m)\<lparr>cap := cap bs\<rparr>\<rparr>)"
| "UpdateBackends_step bs UpdStoreCounter m = (UpdUnlock, m\<lparr>b_counter := 0\<rparr>)"
| "UpdateBackends_step bs UpdUnlock m = (UpdReturned, m\<lparr>b_mu_writer := False\<rparr>)"
| "UpdateBackends_step bs UpdReturned m = (UpdReturned, m)"

text \<open>
  One goroutine in \<open>Next\<close> and one in \<open>UpdateBackends(backends)\<close>; the schedule says
  which of them runs its next step (\<open>True\<close>: the call of \<open>Next\<close>). Go's
  \<open>RWMutex\<close> also holds a new reader back while a writer is waiting, which only
  removes schedules: every run of the program is a run of \<open>concurrently\<close>.
\<close>

fun concurrently ::
  "bool list \<Rightarrow> slice \<Rightarrow> Next_pc \<times> UpdateBackends_pc \<times> Memory \<Rightarrow> Next_pc \<times> UpdateBackends_pc \<times> Memory" where
  "concurrently [] bs cfg = cfg"
| "concurrently (next # sched) bs (n, u, m) =
     (if next
      then (case Next_step n m of (n', m') \<Rightarrow> concurrently sched bs (n', u, m'))
      else (case UpdateBackends_step bs u m of (u', m') \<Rightarrow> concurrently sched bs (n, u', m')))"

text \<open>The call of \<open>Next\<close> is between its \<open>RLock\<close> and its \<open>RUnlock\<close>.\<close>

fun holds_RLock :: "Next_pc \<Rightarrow> bool" where
  "holds_RLock NextRLock = False"
| "holds_RLock (NextReturned r) = False"
| "holds_RLock n = True"

text \<open>
  A balancer over \<open>["a", "b", "c"]\<close> whose counter is 2, and the slice
  \<open>["x", "y"]\<close> stored elsewhere.
\<close>

definition example_memory :: Memory where
  "example_memory =
     \<lparr>arrays = (\<lambda>a. if a = 0 then [''a'', ''b'', ''c''] else if a = 1 then [''x'', ''y''] else []),
      b_backends = \<lparr>array = 0, len = 3, cap = 3\<rparr>,
      b_counter = 2, b_mu_writer = False, b_mu_readerCount = 0\<rparr>"

definition example_backends :: slice where
  "example_backends = \<lparr>array = 1, len = 2, cap = 2\<rparr>"

subsection \<open>The configurations of a run\<close>

text \<open>
  The steps a call has left, at most.
\<close>

fun Next_rank :: "Next_pc \<Rightarrow> nat" where
  "Next_rank NextRLock = 7"
| "Next_rank NextLen = 6"
| "Next_rank NextAdd = 5"
| "Next_rank (NextRem index) = 4"
| "Next_rank (NextBounds i) = 3"
| "Next_rank (NextLoad i) = 2"
| "Next_rank (NextRUnlock r) = 1"
| "Next_rank NextFault = 0"
| "Next_rank (NextReturned r) = 0"

fun UpdateBackends_rank :: "UpdateBackends_pc \<Rightarrow> nat" where
  "UpdateBackends_rank UpdLock = 6"
| "UpdateBackends_rank UpdArray = 5"
| "UpdateBackends_rank UpdLen = 4"
| "UpdateBackends_rank UpdCap = 3"
| "UpdateBackends_rank UpdStoreCounter = 2"
| "UpdateBackends_rank UpdUnlock = 1"
| "UpdateBackends_rank UpdReturned = 0"

text \<open>
  What a call of \<open>Next\<close> that runs on the list of the header \<open>s\<close>, entered with
  the counter at \<open>c\<close>, returns and leaves in the counter.
\<close>

definition Next_done :: "(nat \<Rightarrow> string list) \<Rightarrow> slice \<Rightarrow> 32 word \<Rightarrow> panic + string \<Rightarrow> bool" where
  "Next_done as s c r = (r = fst (Next \<lparr>backends = slice_elems as s, counter = c\<rparr>))"

definition Next_counter :: "(nat \<Rightarrow> string list) \<Rightarrow> slice \<Rightarrow> 32 word \<Rightarrow> 32 word" where
  "Next_counter as s c = counter (snd (Next \<lparr>backends = slice_elems as s, counter = c\<rparr>))"

text \<open>
  The call of \<open>Next\<close> at each of its steps, while the header is \<open>s\<close> and no writer
  holds the mutex.
\<close>

fun Next_at :: "slice \<Rightarrow> 32 word \<Rightarrow> Next_pc \<Rightarrow> Memory \<Rightarrow> bool" where
  "Next_at s c NextRLock m = (b_mu_readerCount m = 0 \<and> b_counter m = c)"
| "Next_at s c NextLen m = (b_mu_readerCount m = 1 \<and> b_counter m = c)"
| "Next_at s c NextAdd m = (b_mu_readerCount m = 1 \<and> b_counter m = c \<and> len s \<noteq> 0)"
| "Next_at s c (NextRem index) m =
     (b_mu_readerCount m = 1 \<and> b_counter m = c + 1 \<and> index = c + 1 \<and> len s \<noteq> 0)"
| "Next_at s c (NextBounds i) m =
     (b_mu_readerCount m = 1 \<and> b_counter m = c + 1 \<and> len s \<noteq> 0 \<and> i = int (unat c mod len s))"
| "Next_at s c (NextLoad i) m =
     (b_mu_readerCount m = 1 \<and> b_counter m = c + 1 \<and> len s \<noteq> 0 \<and> i = int (unat c mod len s))"
| "Next_at s c (NextRUnlock r) m =
     (b_mu_readerCount m = 1 \<and> Next_done (arrays m) s c r \<and>
      b_counter m = Next_counter (arrays m) s c)"
| "Next_at s c NextFault m = False"
| "Next_at s c (NextReturned r) m =
     (b_mu_readerCount m = 0 \<and> Next_done (arrays m) s c r \<and>
      b_counter m = Next_counter (arrays m) s c)"

text \<open>
  While the writer holds the mutex, the call of \<open>Next\<close> has not passed \<open>RLock\<close>
  or has returned; \<open>stored\<close>: the writer has reset the counter.
\<close>

fun Next_outside :: "slice \<Rightarrow> 32 word \<Rightarrow> Next_pc \<Rightarrow> Memory \<Rightarrow> bool \<Rightarrow> bool" where
  "Next_outside s c NextRLock m stored = (b_counter m = (if stored then 0 else c))"
| "Next_outside s c (NextReturned r) m stored =
     (Next_done (arrays m) s c r \<and>
      b_counter m = (if stored then 0 else Next_counter (arrays m) s c))"
| "Next_outside s c n m stored = False"

text \<open>
  The configurations of the runs that start with the arrays \<open>as\<close>, the header
  \<open>old\<close> and the counter \<open>c\<close>, the mutex free, and update to the header \<open>bs\<close>.
\<close>

fun reachable :: "(nat \<Rightarrow> string list) \<Rightarrow> slice \<Rightarrow> 32 word \<Rightarrow> slice \<Rightarrow> Next_pc \<times> UpdateBackends_pc \<times> Memory \<Rightarrow> bool" where
  "reachable as old c bs (n, UpdLock, m) =
     (arrays m = as \<and> \<not> b_mu_writer m \<and> b_backends m = old \<and> Next_at old c n m)"
| "reachable as old c bs (n, UpdArray, m) =
     (arrays m = as \<and> b_mu_writer m \<and> b_mu_readerCount m = 0 \<and> b_backends m = old \<and>
      Next_outside old c n m False)"
| "reachable as old c bs (n, UpdLen, m) =
     (arrays m = as \<and> b_mu_writer m \<and> b_mu_readerCount m = 0 \<and>
      b_backends m = old\<lparr>array := array bs\<rparr> \<and> Next_outside old c n m False)"
| "reachable as old c bs (n, UpdCap, m) =
     (arrays m = as \<and> b_mu_writer m \<and> b_mu_readerCount m = 0 \<and>
      b_backends m = old\<lparr>array := array bs, len := len bs\<rparr> \<and> Next_outside old c n m False)"
| "reachable as old c bs (n, UpdStoreCounter, m) =
     (arrays m = as \<and> b_mu_writer m \<and> b_mu_readerCount m = 0 \<and> b_backends m = bs \<and>
      Next_outside old c n m False)"
| "reachable as old c bs (n, UpdUnlock, m) =
     (arrays m = as \<and> b_mu_writer m \<and> b_mu_readerCount m = 0 \<and> b_backends m = bs \<and>
      Next_outside old c n m True)"
| "reachable as old c bs (n, UpdReturned, m) =
     (arrays m = as \<and> \<not> b_mu_writer m \<and> b_backends m = bs \<and>
      (Next_at bs 0 n m \<or>
       (\<exists>r. n = NextReturned r \<and> Next_done as old c r \<and> b_counter m = 0 \<and>
            b_mu_readerCount m = 0)))"

section \<open>Go library: strings, strconv\<close>

text \<open>\<open>strings.HasPrefix\<close>, \<open>strings.HasSuffix\<close> and \<open>strings.TrimSuffix\<close>, on bytes.\<close>

definition HasPrefix :: "string \<Rightarrow> string \<Rightarrow> bool" where
  "HasPrefix s pre = (length pre \<le> length s \<and> take (length pre) s = pre)"

definition HasSuffix :: "string \<Rightarrow> string \<Rightarrow> bool" where
  "HasSuffix s suf = (length suf \<le> length s \<and> drop (length s - length suf) s = suf)"

definition TrimSuffix :: "string \<Rightarrow> string \<Rightarrow> string" where
  "TrimSuffix s suf = (if HasSuffix s suf then take (length s - length suf) s else s)"

text \<open>The decimal rendering of a non-negative integer (\<open>%d\<close>).\<close>

fun Itoa :: "nat \<Rightarrow> string" where
  "Itoa n =
     (if n < 10 then [''0123456789'' ! n] else Itoa (n div 10) @ [''0123456789'' ! (n mod 10)])"

declare Itoa.simps [simp del]

section \<open>Go errors and gRPC status codes\<close>

datatype Code = OK | Canceled | Unknown | InvalidArgument | DeadlineExceeded | NotFound
  | AlreadyExists | PermissionDenied | ResourceExhausted | FailedPrecondition | Aborted
  | OutOfRange | Unimplemented | Internal | Unavailable | DataLoss | Unauthenticated

fun Code_String :: "Code \<Rightarrow> string" where
  "Code_String OK = ''OK''"
| "Code_String Canceled = ''Canceled''"
| "Code_String Unknown = ''Unknown''"
| "Code_String InvalidArgument = ''InvalidArgument''"
| "Code_String DeadlineExceeded = ''DeadlineExceeded''"
| "Code_String NotFound = ''NotFound''"
| "Code_String AlreadyExists = ''AlreadyExists''"
| "Code_String PermissionDenied = ''PermissionDenied''"
| "Code_String ResourceExhausted = ''ResourceExhausted''"
| "Code_String FailedPrecondition = ''FailedPrecondition''"
| "Code_String Aborted = ''Aborted''"
| "Code_String OutOfRange = ''OutOfRange''"
| "Code_String Unimplemented = ''Unimplemented''"
| "Code_String Internal = ''Internal''"
| "Code_String Unavailable = ''Unavailable''"
| "Code_String DataLoss = ''DataLoss''"
| "Code_String Unauthenticated = ''Unauthenticated''"

text \<open>
  An error value: one made by \<open>fmt.Errorf\<close> (its message), or a gRPC status error
  (\<open>status.Errorf\<close>, or what \<open>conn.Invoke\<close> returns), with its code and message.
  \<open>Error\<close> is the method \<open>Error()\<close>; \<open>%v\<close> and \<open>%w\<close> print it.
\<close>

datatype error = Errorf string | Status Code string

fun Error :: "error \<Rightarrow> string" where
  "Error (Errorf msg) = msg"
| "Error (Status c msg) = ''rpc error: code = '' @ Code_String c @ '' desc = '' @ msg"

section \<open>config: the fields of the configuration the router reads\<close>

record Backend =
  Address :: string
  Weight :: int
  TLS :: bool
  TLSServerName :: string
  TLSSkipVerify :: bool
  HealthCheckPath :: string
  MaxConnections :: int

record HTTPRoute =
  Path :: string
  Methods :: "string list"
  TargetProtocol :: string
  StripPath :: bool
  Backends :: "Backend list"
  Timeout :: string

record GRPCService =
  ServiceName :: string
  IsGRPC :: bool
  MaxCallRecvMsgSize :: int
  MaxCallSendMsgSize :: int
  ServiceBackends :: "Backend list"
  ServiceTimeout :: string
  RetryAttempts :: int

record Config =
  GRPCServices :: "GRPCService list"
  HTTPRoutes :: "HTTPRoute list"

section \<open>pool/connection\_pool.go\<close>

text \<open>
  The gRPC client library, as far as the pool sees it. A \<open>*grpc.ClientConn\<close> is a
  handle: the index of the connection in \<open>conns\<close>, the list of all connections dialed so
  far. \<open>dial_error\<close> is the library's answer to a dial of an address: \<open>None\<close> when
  \<open>grpc.DialContext\<close> returns a connection, the error's message otherwise.
\<close>

datatype State = Idle | Connecting | Ready | TransientFailure | Shutdown

record ClientConn =
  Target :: string
  UseTLS :: bool
  InsecureSkipVerify :: bool
  MaxCallMsgSize :: int
  ConnState :: State

record Runtime =
  conns :: "ClientConn list"
  dial_error :: "string \<Rightarrow> string option"

record ConnectionPool =
  connections :: "string \<rightharpoonup> nat"
  maxMsgSize :: int

definition NewConnectionPool :: "int \<Rightarrow> ConnectionPool" where
  "NewConnectionPool n = \<lparr>connections = Map.empty, maxMsgSize = n\<rparr>"

definition GetState :: "Runtime \<Rightarrow> nat \<Rightarrow> State" where
  "GetState rt c = ConnState (conns rt ! c)"

definition Close :: "Runtime \<Rightarrow> nat \<Rightarrow> Runtime" where
  "Close rt c = rt\<lparr>conns := (conns rt)[c := (conns rt ! c)\<lparr>ConnState := Shutdown\<rparr>]\<rparr>"

definition DialContext :: "Runtime \<Rightarrow> string \<Rightarrow> bool \<Rightarrow> bool \<Rightarrow> int \<Rightarrow> (error + nat) \<times> Runtime" where
  "DialContext rt address tls skip msgSize =
     (case dial_error rt address of
        Some msg \<Rightarrow> (Inl (Errorf msg), rt)
      | None \<Rightarrow>
          (Inr (length (conns rt)),
           rt\<lparr>conns := conns rt @
             [\<lparr>Target = address, UseTLS = tls, InsecureSkipVerify = skip,
               MaxCallMsgSize = msgSize, ConnState = Idle\<rparr>]\<rparr>))"

definition createConnection ::
  "ConnectionPool \<Rightarrow> Runtime \<Rightarrow> string \<Rightarrow> bool \<Rightarrow> bool \<Rightarrow> (error + nat) \<times> Runtime" where
  "createConnection p rt address useTLS skipVerify =
     (case DialContext rt address useTLS (useTLS \<and> skipVerify) (maxMsgSize p) of
        (Inl err, rt') \<Rightarrow> (Inl (Errorf (''failed to dial '' @ address @ '': '' @ Error err)), rt')
      | (Inr conn, rt') \<Rightarrow> (Inr conn, rt'))"

text \<open>The states in which \<open>GetConnection\<close> reuses a cached connection.\<close>

definition usable :: "State \<Rightarrow> bool" where
  "usable state = (state = Ready \<or> state = Connecting \<or> state = Idle)"

text \<open>Lines 48 to 55 of \<open>GetConnection\<close>: dial, and on success store and return.\<close>

definition create_and_store ::
  "ConnectionPool \<times> Runtime \<Rightarrow> string \<Rightarrow> bool \<Rightarrow> bool \<Rightarrow> (error + nat) \<times> ConnectionPool \<times> Runtime" where
  "create_and_store st address useTLS skipVerify =
     (case st of (p, rt) \<Rightarrow>
        (case createConnection p rt address useTLS skipVerify of
           (Inl err, rt') \<Rightarrow> (Inl err, p, rt')
         | (Inr conn, rt') \<Rightarrow> (Inr conn, p\<lparr>connections := (connections p)(address \<mapsto> conn)\<rparr>, rt')))"

definition GetConnection ::
  "ConnectionPool \<times> Runtime \<Rightarrow> string \<Rightarrow> bool \<Rightarrow> bool \<Rightarrow> (error + nat) \<times> ConnectionPool \<times> Runtime" where
  "GetConnection st address useTLS skipVerify =
     (case st of (p, rt) \<Rightarrow>
        (case connections p address of
           Some clientConn \<Rightarrow>
             (let state = GetState rt clientConn in
              if usable state then (Inr clientConn, p, rt)
              else create_and_store
                     (p\<lparr>connections := (connections p)(address := None)\<rparr>, Close rt clientConn)
                     address useTLS skipVerify)
         | None \<Rightarrow> create_and_store (p, rt) address useTLS skipVerify))"

text \<open>
  \<open>GetConnection\<close> takes no lock (the field \<open>mu\<close> is never used): between two
  operations of one call, another goroutine may run. The operations on the
  \<open>sync.Map\<close> (\<open>Load\<close>, \<open>Delete\<close>, \<open>Store\<close>) and those on the connection
  (\<open>GetState\<close>, \<open>Close\<close>, the dial) are each atomic. \<open>pc\<close> is where a call stands,
  with the local variables it holds; \<open>step\<close> runs its next operation.
\<close>

datatype pc = AtLoad | AtGetState nat | AtClose nat | AtDelete | AtCreate | AtStore nat
  | Returned "error + nat"

fun step ::
  "string \<Rightarrow> bool \<Rightarrow> bool \<Rightarrow> pc \<Rightarrow> ConnectionPool \<times> Runtime \<Rightarrow> pc \<times> ConnectionPool \<times> Runtime" where
  "step address useTLS skipVerify AtLoad (p, rt) =
     (case connections p address of
        Some clientConn \<Rightarrow> (AtGetState clientConn, p, rt)
      | None \<Rightarrow> (AtCreate, p, rt))"
| "step address useTLS skipVerify (AtGetState clientConn) (p, rt) =
     (if usable (GetState rt clientConn) then (Returned (Inr clientConn), p, rt)
      else (AtClose clientConn, p, rt))"
| "step address useTLS skipVerify (AtClose clientConn) (p, rt) =
     (AtDelete, p, Close rt clientConn)"
| "step address useTLS skipVerify AtDelete (p, rt) =
     (AtCreate, p\<lparr>connections := (connections p)(address := None)\<rparr>, rt)"
| "step address useTLS skipVerify AtCreate (p, rt) =
     (case createConnection p rt address useTLS skipVerify of
        (Inl err, rt') \<Rightarrow> (Returned (Inl err), p, rt')
      | (Inr conn, rt') \<Rightarrow> (AtStore conn, p, rt'))"
| "step address useTLS skipVerify (AtStore conn) (p, rt) =
     (Returned (Inr conn), p\<lparr>connections := (connections p)(address \<mapsto> conn)\<rparr>, rt)"
| "step address useTLS skipVerify (Returned r) (p, rt) = (Returned r, p, rt)"

fun steps :: "nat \<Rightarrow> string \<Rightarrow> bool \<Rightarrow> bool \<Rightarrow> pc \<Rightarrow> ConnectionPool \<times> Runtime \<Rightarrow> pc \<times> ConnectionPool \<times> Runtime" where
  "steps 0 address useTLS skipVerify c st = (c, st)"
| "steps (Suc n) address useTLS skipVerify c st =
     (case step address useTLS skipVerify c st of (c', st') \<Rightarrow> steps n address useTLS skipVerify c' st')"

text \<open>
  Two goroutines, each calling \<open>GetConnection(ctx, address, false, false)\<close>; the
  schedule says which of them runs its next operation (\<open>True\<close>: the first).
\<close>

fun interleave ::
  "bool list \<Rightarrow> string \<Rightarrow> pc \<times> pc \<times> ConnectionPool \<times> Runtime \<Rightarrow> pc \<times> pc \<times> ConnectionPool \<times> Runtime" where
  "interleave [] address cfg = cfg"
| "interleave (first # sched) address (c1, c2, st) =
     (if first
      then (case step address False False c1 st of (c1', st') \<Rightarrow> interleave sched address (c1', c2, st'))
      else (case step address False False c2 st of (c2', st') \<Rightarrow> interleave sched address (c1, c2', st')))"

section \<open>router/http\_handler.go: route matching\<close>

record HTTPHandler =
  config :: Config
  balancers :: "string \<rightharpoonup> RoundRobinBalancer"

definition pathMatches :: "string \<Rightarrow> string \<Rightarrow> bool" where
  "pathMatches requestPath routePath =
     (if HasSuffix routePath ''*''
      then (let pre = TrimSuffix routePath ''*'' in HasPrefix requestPath pre)
      else HasPrefix requestPath routePath)"

text \<open>The inner loop of \<open>findRoute\<close>: is the method in the route's list?\<close>

fun methodMatch :: "string list \<Rightarrow> string \<Rightarrow> bool" where
  "methodMatch [] method = False"
| "methodMatch (m # ms) method = (if m = method then True else methodMatch ms method)"

text \<open>
  The outer loop, from index \<open>i\<close> on. \<open>(nil, "")\<close> is \<open>None\<close>; the route returned is
  a copy of the matching entry.
\<close>

fun findRoute_loop :: "nat \<Rightarrow> HTTPRoute list \<Rightarrow> string \<Rightarrow> string \<Rightarrow> (HTTPRoute \<times> string) option" where
  "findRoute_loop i [] path method = None"
| "findRoute_loop i (route # rest) path method =
     (if \<not> pathMatches path (Path route) then findRoute_loop (Suc i) rest path method
      else if length (Methods route) > 0 \<and> \<not> methodMatch (Methods route) method
        then findRoute_loop (Suc i) rest path method
      else Some (route, ''route_'' @ Itoa i))"

definition findRoute :: "HTTPHandler \<Rightarrow> string \<Rightarrow> string \<Rightarrow> (HTTPRoute \<times> string) option" where
  "findRoute h path method = findRoute_loop 0 (HTTPRoutes (config h)) path method"

text \<open>
  Route matching in the specification's words: a pattern ending in \<open>*\<close> matches any
  path with the rest of the pattern as a prefix, any other pattern must be a prefix of
  the path; the method list is empty or contains the method.
\<close>

definition pattern_matches :: "string \<Rightarrow> string \<Rightarrow> bool" where
  "pattern_matches pat path =
     (if pat \<noteq> [] \<and> last pat = CHR ''*'' then prefix (butlast pat) path else prefix pat path)"

definition route_matches :: "HTTPRoute \<Rightarrow> string \<Rightarrow> string \<Rightarrow> bool" where
  "route_matches r path method =
     (pattern_matches (Path r) path \<and> (Methods r = [] \<or> method \<in> set (Methods r)))"

text \<open>The routes \<open>["/api*", "/api/special"]\<close>, in that order, open to every method.\<close>

definition example_route :: "string \<Rightarrow> HTTPRoute" where
  "example_route p =
     \<lparr>Path = p, Methods = [], TargetProtocol = ''http'', StripPath = False,
      Backends = [], Timeout = ''''\<rparr>"

definition example_handler :: HTTPHandler where
  "example_handler =
     \<lparr>config = \<lparr>GRPCServices = [],
                 HTTPRoutes = [example_route ''/api*'', example_route ''/api/special'']\<rparr>,
      balancers = Map.empty\<rparr>"

chapter \<open>Properties\<close>

section \<open>Round-robin selection\<close>

lemma go_int_uint: "go_int w = uint w"
proof -
  have up: "uint (ucast w :: 64 word) = uint w"
    by (simp add: uint_up_ucast is_up)
  have "uint w < 2 ^ 32"
    using uint_bounded [of w] by simp
  then have hi: "uint w < 2 ^ 63"
    by simp
  have lo: "- (2 ^ 63) \<le> uint w"
    by (rule order_trans [of _ 0]) simp_all
  have "signed_take_bit 63 (uint w) = uint w"
    using lo hi by (simp only: signed_take_bit_int_eq_self_iff)
  then have "sint (ucast w :: 64 word) = uint w"
    using up by (simp add: sint_uint)
  then show ?thesis by (simp add: go_int_def)
qed

lemma go_rem_nonneg: "0 \<le> a \<Longrightarrow> 0 < b \<Longrightarrow> go_rem a b = Inr (a mod b)"
  by (simp add: go_rem_def smod_int_alt_def sgn_if)

lemma go_index_nat: "i < length xs \<Longrightarrow> go_index xs (int i) = Inr (xs ! i)"
  by (simp add: go_index_def)

lemma Next_empty: "backends b = [] \<Longrightarrow> Next b = (Inr '''', b)"
  by (simp add: Next_def)

lemma Next_nonempty:
  assumes "backends b \<noteq> []"
  shows "Next b = (Inr (backends b ! (unat (counter b) mod length (backends b))),
                   b\<lparr>counter := counter b + 1\<rparr>)"
proof -
  let ?n = "length (backends b)"
  have n: "0 < ?n" using assms by simp
  have r: "go_rem (go_int (counter b)) (int ?n) = Inr (int (unat (counter b) mod ?n))"
    using n by (simp add: go_int_uint go_rem_nonneg zmod_int)
  have "unat (counter b) mod ?n < ?n" using n by simp
  then have i: "go_index (backends b) (int (unat (counter b) mod ?n))
      = Inr (backends b ! (unat (counter b) mod ?n))"
    by (rule go_index_nat)
  show ?thesis
    using assms by (simp add: Next_def Let_def r i)
qed

lemma Next_times_from:
  "backends b \<noteq> [] \<Longrightarrow>
   Next_times m b =
     (map (\<lambda>i. Inr (backends b ! (unat (counter b + of_nat i) mod length (backends b)))) [0..<m],
      b\<lparr>counter := counter b + of_nat m\<rparr>)"
proof (induction m arbitrary: b)
  case 0
  then show ?case by simp
next
  case (Suc m)
  let ?b' = "b\<lparr>counter := counter b + 1\<rparr>"
  have b': "backends ?b' \<noteq> []" using Suc.prems by simp
  have "[0..<Suc m] = 0 # map Suc [0..<m]"
    by (simp add: upt_conv_Cons map_Suc_upt del: upt_Suc)
  then show ?case
    using Suc.prems Suc.IH [OF b']
    by (simp add: Next_nonempty comp_def add.assoc del: upt_Suc)
qed

lemma Next_times_fresh:
  "bs \<noteq> [] \<Longrightarrow>
   fst (Next_times m (NewRoundRobinBalancer bs)) =
     map (\<lambda>i. Inr (bs ! ((i mod 2 ^ 32) mod length bs))) [0..<m]"
  by (simp add: Next_times_from NewRoundRobinBalancer_def unat_of_nat)




text \<open>
  C1, as stated, fails once the 32-bit counter has wrapped around: with three backends
  the call number \<open>2 ^ 32\<close> (counting from 0) returns the first backend, where
  \<open>backends[i mod N]\<close> is the second.
\<close>

theorem Next_sequence_wraps_counterexample:
  "fst (Next_times 4294967297 (NewRoundRobinBalancer [''a'', ''b'', ''c''])) ! 4294967296
     = Inr ''a'' \<and>
   [''a'', ''b'', ''c''] ! (4294967296 mod 3) = ''b'' \<and>
   fst (Next_times 4294967297 (NewRoundRobinBalancer [''a'', ''b'', ''c'']))
     \<noteq> map (\<lambda>i. Inr ([''a'', ''b'', ''c''] ! (i mod 3))) [0..<4294967297]"
proof -
  let ?bs = "[''a'', ''b'', ''c'']"
  let ?rs = "fst (Next_times 4294967297 (NewRoundRobinBalancer ?bs))"
  let ?claimed = "map (\<lambda>i. Inr (?bs ! (i mod 3))) [0..<4294967297] :: (panic + string) list"
  have rs: "?rs = map (\<lambda>i. Inr (?bs ! ((i mod 2 ^ 32) mod length ?bs))) [0..<4294967297]"
    by (rule Next_times_fresh) simp
  have a: "?rs ! 4294967296 = Inr ''a''"
    unfolding rs by (simp del: upt_Suc)
  have b: "?bs ! (4294967296 mod 3) = ''b''"
    by simp
  have "?claimed ! 4294967296 = Inr ''b''"
    by (simp del: upt_Suc)
  with a have "?rs \<noteq> ?claimed"
    by auto
  with a b show ?thesis by blast
qed

text \<open>
  C1, amended. From a fresh balancer over \<open>N \<ge> 1\<close> backends, the \<open>i\<close>-th of \<open>M\<close>
  successive calls (from 0) returns \<open>backends[(i mod 2 ^ 32) mod N]\<close>, which is
  \<open>backends[i mod N]\<close> as long as \<open>M \<le> 2 ^ 32\<close>. Each call on a non-empty list adds one
  to the 32-bit counter and returns \<open>backends[(counter - 1) mod N]\<close> for the new counter,
  without a panic.
\<close>

theorem Next_round_robin:
  "bs \<noteq> [] \<Longrightarrow> backends b \<noteq> [] \<Longrightarrow>
     snd (Next b) = b\<lparr>counter := counter b + 1\<rparr> \<and>
     fst (Next b) =
       Inr (backends b ! (unat (counter (snd (Next b)) - 1) mod length (backends b))) \<and>
     fst (Next_times M (NewRoundRobinBalancer bs)) =
       map (\<lambda>i. Inr (bs ! ((i mod 2 ^ 32) mod length bs))) [0..<M] \<and>
     (M \<le> 2 ^ 32 \<longrightarrow>
        fst (Next_times M (NewRoundRobinBalancer bs)) =
          map (\<lambda>i. Inr (bs ! (i mod length bs))) [0..<M])"
proof -
  assume bs: "bs \<noteq> []" and b: "backends b \<noteq> []"
  have step: "snd (Next b) = b\<lparr>counter := counter b + 1\<rparr>"
    by (simp add: Next_nonempty [OF b])
  have res: "fst (Next b) =
      Inr (backends b ! (unat (counter (snd (Next b)) - 1) mod length (backends b)))"
    by (simp add: Next_nonempty [OF b])
  have seq: "fst (Next_times M (NewRoundRobinBalancer bs)) =
      map (\<lambda>i. Inr (bs ! ((i mod 2 ^ 32) mod length bs))) [0..<M]"
    by (rule Next_times_fresh [OF bs])
  have "map (\<lambda>i. Inr (bs ! ((i mod 2 ^ 32) mod length bs)) :: panic + string) [0..<M] =
      map (\<lambda>i. Inr (bs ! (i mod length bs))) [0..<M]" if "M \<le> 2 ^ 32"
    using that by (intro map_cong refl) simp
  with step res seq show ?thesis by simp
qed

theorem Next_round_robin_witness:
  "[''a'', ''b'', ''c''] \<noteq> [] \<and>
   backends \<lparr>backends = [''x'', ''y''], counter = 5\<rparr> \<noteq> [] \<and>
   Next \<lparr>backends = [''x'', ''y''], counter = 5\<rparr> =
     (Inr ''y'', \<lparr>backends = [''x'', ''y''], counter = 6\<rparr>) \<and>
   fst (Next_times 4 (NewRoundRobinBalancer [''a'', ''b'', ''c''])) =
     [Inr ''a'', Inr ''b'', Inr ''c'', Inr ''a'']"
proof -
  let ?b = "\<lparr>backends = [''x'', ''y''], counter = 5\<rparr>"
  let ?bs = "[''a'', ''b'', ''c'']"
  have u: "[0..<4] = [0, 1, 2, 3]"
    by (simp add: upt_conv_Cons)
  have l2: "length [''x'', ''y''] = 2" and l3: "length ?bs = 3"
    by simp_all
  have hyps: "?bs \<noteq> []" "backends ?b \<noteq> []"
    by simp_all
  note inst = Next_round_robin [OF hyps, of 4, unfolded l3 u]
  from inst have s: "snd (Next ?b) = \<lparr>backends = [''x'', ''y''], counter = 6\<rparr>"
    by simp
  from inst have "fst (Next ?b) = Inr ([''x'', ''y''] ! (unat (counter (snd (Next ?b)) - 1) mod 2))"
    by (simp only: l2 RoundRobinBalancer.select_convs)
  then have f: "fst (Next ?b) = Inr ''y''"
    by (simp add: s)
  from inst have t: "fst (Next_times 4 (NewRoundRobinBalancer ?bs)) =
       [Inr ''a'', Inr ''b'', Inr ''c'', Inr ''a'']"
    by simp
  have "Next ?b = (fst (Next ?b), snd (Next ?b))"
    by simp
  with s f t show ?thesis by simp
qed

lemma go_rem_counter:
  "0 < n \<Longrightarrow> go_rem (go_int c) (int n) = Inr (int (unat c mod n))"
  by (simp add: go_int_uint go_rem_nonneg zmod_int)

lemma Next_slice:
  assumes "valid_slice as s"
  shows "Next \<lparr>backends = slice_elems as s, counter = c\<rparr> =
    (if len s = 0 then (Inr '''', \<lparr>backends = slice_elems as s, counter = c\<rparr>)
     else (Inr (as (array s) ! (unat c mod len s)),
           \<lparr>backends = slice_elems as s, counter = c + 1\<rparr>))"
proof -
  have l: "length (slice_elems as s) = len s"
    using assms by (simp add: slice_elems_def valid_slice_def)
  show ?thesis
  proof (cases "len s = 0")
    case True
    then show ?thesis using l by (simp add: Next_empty)
  next
    case False
    then have ne: "backends \<lparr>backends = slice_elems as s, counter = c\<rparr> \<noteq> []"
      using l by auto
    have "unat c mod len s < len s" using False by simp
    then have "slice_elems as s ! (unat c mod len s) = as (array s) ! (unat c mod len s)"
      by (simp add: slice_elems_def)
    then show ?thesis
      using False l by (simp add: Next_nonempty [OF ne])
  qed
qed

lemma reachable_Next_step:
  assumes old: "valid_slice as old" and new: "valid_slice as bs"
    and r: "reachable as old c bs (n, u, m)"
  shows "reachable as old c bs (fst (Next_step n m), u, snd (Next_step n m))"
proof -
  have lo: "len old \<le> length (as (array old))" and ln: "len bs \<le> length (as (array bs))"
    using old new by (simp_all add: valid_slice_def)
  have mo: "len old \<noteq> 0 \<Longrightarrow> unat c mod len old < length (as (array old))" for c :: "32 word"
    using lo by (meson mod_less_divisor not_gr_zero order_less_le_trans)
  have mn: "len bs \<noteq> 0 \<Longrightarrow> unat c mod len bs < length (as (array bs))" for c :: "32 word"
    using ln by (meson mod_less_divisor not_gr_zero order_less_le_trans)
  note facts = Next_slice [OF old] Next_slice [OF new] Next_done_def Next_counter_def
    go_rem_counter Let_def mo mn
  show ?thesis
  proof (cases u)
    case UpdLock
    then show ?thesis using r by (cases n) (simp_all add: facts)
  next
    case UpdArray
    then show ?thesis using r by (cases n) (simp_all add: facts)
  next
    case UpdLen
    then show ?thesis using r by (cases n) (simp_all add: facts)
  next
    case UpdCap
    then show ?thesis using r by (cases n) (simp_all add: facts)
  next
    case UpdStoreCounter
    then show ?thesis using r by (cases n) (simp_all add: facts)
  next
    case UpdUnlock
    then show ?thesis using r by (cases n) (simp_all add: facts)
  next
    case u: UpdReturned
    from r u have m: "arrays m = as" "\<not> b_mu_writer m" "b_backends m = bs"
      by simp_all
    from r u consider (after) "Next_at bs 0 n m"
      | (before) r where "n = NextReturned r" "Next_done as old c r" "b_counter m = 0"
          "b_mu_readerCount m = 0"
      by auto
    then show ?thesis
    proof cases
      case after
      then have "Next_at bs 0 (fst (Next_step n m)) (snd (Next_step n m))"
        using m mn [of 0] by (cases n) (simp_all add: facts)
      then show ?thesis using u m by (cases n) (simp_all add: Let_def split: sum.splits)
    next
      case before
      then show ?thesis using u m by simp
    qed
  qed
qed

lemma reachable_UpdateBackends_step:
  assumes r: "reachable as old c bs (n, u, m)"
  shows "reachable as old c bs (n, fst (UpdateBackends_step bs u m), snd (UpdateBackends_step bs u m))"
proof (cases u)
  case UpdLock
  then show ?thesis using r by (cases n) auto
next
  case UpdArray
  then show ?thesis using r by (cases n) auto
next
  case UpdLen
  then show ?thesis using r by (cases n) auto
next
  case UpdCap
  then show ?thesis using r by (cases n) auto
next
  case UpdStoreCounter
  then show ?thesis using r by (cases n) auto
next
  case UpdUnlock
  then show ?thesis using r by (cases n) (auto simp: Next_done_def Next_counter_def)
next
  case UpdReturned
  then show ?thesis using r by (cases n) auto
qed


lemma concurrently_append:
  "concurrently (xs @ ys) bs cfg = concurrently ys bs (concurrently xs bs cfg)"
proof (induction xs arbitrary: cfg)
  case Nil
  then show ?case by simp
next
  case (Cons x xs)
  obtain n u m where cfg: "cfg = (n, u, m)"
    by (cases cfg) auto
  show ?case
    by (simp add: cfg Cons.IH split_beta)
qed

lemma reachable_concurrently:
  assumes "valid_slice as old" and "valid_slice as bs"
  shows "reachable as old c bs cfg \<Longrightarrow> reachable as old c bs (concurrently sched bs cfg)"
proof (induction sched arbitrary: cfg)
  case Nil
  then show ?case by simp
next
  case (Cons x sched)
  obtain n u m where cfg: "cfg = (n, u, m)"
    by (cases cfg) auto
  have n: "reachable as old c bs (fst (Next_step n m), u, snd (Next_step n m))"
    using assms Cons.prems unfolding cfg by (rule reachable_Next_step)
  have u: "reachable as old c bs
      (n, fst (UpdateBackends_step bs u m), snd (UpdateBackends_step bs u m))"
    using Cons.prems unfolding cfg by (rule reachable_UpdateBackends_step)
  show ?case
    using Cons.IH [OF n] Cons.IH [OF u] by (simp add: cfg split_beta)
qed

lemma reachable_initially:
  "\<not> b_mu_writer m \<Longrightarrow> b_mu_readerCount m = 0 \<Longrightarrow>
   reachable (arrays m) (b_backends m) (b_counter m) bs (NextRLock, UpdLock, m)"
  by simp

lemma Next_frame: "snd (Next b) = b\<lparr>counter := counter (snd (Next b))\<rparr>"
  by (cases "backends b = []") (simp_all add: Next_empty Next_nonempty)

lemma reachable_returned:
  assumes r: "reachable as old c bs (NextReturned r, UpdReturned, m')"
  shows "b_mu_readerCount m' = 0 \<and>
    (r = fst (Next \<lparr>backends = slice_elems as old, counter = c\<rparr>) \<and>
       balancer_of m' =
         UpdateBackends (snd (Next \<lparr>backends = slice_elems as old, counter = c\<rparr>))
           (slice_elems as bs) \<or>
     (r, balancer_of m') =
       Next (UpdateBackends \<lparr>backends = slice_elems as old, counter = c\<rparr> (slice_elems as bs)))"
proof -
  from r have m: "arrays m' = as" "b_backends m' = bs"
    by simp_all
  from r consider (after) "Next_at bs 0 (NextReturned r) m'"
    | (before) "Next_done as old c r" "b_counter m' = 0" "b_mu_readerCount m' = 0"
    by auto
  then show ?thesis
  proof cases
    case after
    let ?b = "\<lparr>backends = slice_elems as bs, counter = 0\<rparr>"
    from after have a: "b_mu_readerCount m' = 0" "r = fst (Next ?b)"
      "b_counter m' = counter (snd (Next ?b))"
      using m by (simp_all add: Next_done_def Next_counter_def)
    have "snd (Next ?b) = ?b\<lparr>counter := counter (snd (Next ?b))\<rparr>"
      by (rule Next_frame)
    then have "balancer_of m' = snd (Next ?b)"
      using a m by (simp add: balancer_of_def)
    then have "(r, balancer_of m') = Next ?b"
      using a by simp
    then show ?thesis
      using a by (simp add: UpdateBackends_def)
  next
    case before
    then show ?thesis
      using m by (simp add: Next_done_def balancer_of_def UpdateBackends_def)
  qed
qed

lemma Next_step_writer: "b_mu_writer (snd (Next_step n m)) = b_mu_writer m"
  by (cases n) (simp_all add: Let_def split: sum.splits)

lemma Next_step_rank:
  "\<not> b_mu_writer m \<Longrightarrow> Next_rank (fst (Next_step n m)) \<le> Next_rank n - 1"
  by (cases n) (simp_all add: Let_def split: sum.splits)

lemma Next_progress:
  "\<not> b_mu_writer m \<Longrightarrow>
    \<exists>n' m'. concurrently (replicate k True) bs (n, u, m) = (n', u, m') \<and>
      Next_rank n' \<le> Next_rank n - k"
proof (induction k arbitrary: n m)
  case 0
  then show ?case by simp
next
  case (Suc k)
  let ?n = "fst (Next_step n m)" and ?m = "snd (Next_step n m)"
  have w: "\<not> b_mu_writer ?m"
    using Suc.prems by (simp add: Next_step_writer)
  from Suc.IH [OF w] obtain n' m' where
    run: "concurrently (replicate k True) bs (?n, u, ?m) = (n', u, m')"
    and rank: "Next_rank n' \<le> Next_rank ?n - k"
    by blast
  have "Next_rank ?n \<le> Next_rank n - 1"
    using Suc.prems by (rule Next_step_rank)
  with rank have "Next_rank n' \<le> Next_rank n - Suc k"
    by simp
  with run show ?case
    by (simp add: split_beta)
qed

lemma Next_stutter:
  "Next_step n m = (n, m) \<Longrightarrow> concurrently (replicate k True) bs (n, u, m) = (n, u, m)"
  by (induction k) simp_all

lemma UpdateBackends_step_rank:
  assumes "u = UpdLock \<longrightarrow> \<not> b_mu_writer m \<and> b_mu_readerCount m = 0"
  shows "UpdateBackends_rank (fst (UpdateBackends_step bs u m)) \<le> UpdateBackends_rank u - 1 \<and>
    fst (UpdateBackends_step bs u m) \<noteq> UpdLock"
  using assms by (cases u) simp_all

lemma UpdateBackends_progress:
  "u = UpdLock \<longrightarrow> \<not> b_mu_writer m \<and> b_mu_readerCount m = 0 \<Longrightarrow>
    \<exists>u' m'. concurrently (replicate k False) bs (n, u, m) = (n, u', m') \<and>
      UpdateBackends_rank u' \<le> UpdateBackends_rank u - k"
proof (induction k arbitrary: u m)
  case 0
  then show ?case by simp
next
  case (Suc k)
  let ?u = "fst (UpdateBackends_step bs u m)" and ?m = "snd (UpdateBackends_step bs u m)"
  from UpdateBackends_step_rank [OF Suc.prems]
  have rk: "UpdateBackends_rank ?u \<le> UpdateBackends_rank u - 1" and nl: "?u \<noteq> UpdLock"
    by simp_all
  from nl have "?u = UpdLock \<longrightarrow> \<not> b_mu_writer ?m \<and> b_mu_readerCount ?m = 0"
    by simp
  from Suc.IH [OF this] obtain u' m' where
    run: "concurrently (replicate k False) bs (n, ?u, ?m) = (n, u', m')"
    and rank: "UpdateBackends_rank u' \<le> UpdateBackends_rank ?u - k"
    by blast
  from rk rank have "UpdateBackends_rank u' \<le> UpdateBackends_rank u - Suc k"
    by simp
  with run show ?case
    by (simp add: split_beta)
qed


lemma reachable_no_fault: "reachable as old c bs (n, u, m) \<Longrightarrow> n \<noteq> NextFault"
  by (cases u) auto

lemma Next_rank_0: "Next_rank n = 0 \<Longrightarrow> n \<noteq> NextFault \<Longrightarrow> \<exists>r. n = NextReturned r"
  by (cases n) simp_all

lemma UpdateBackends_rank_0: "UpdateBackends_rank u = 0 \<Longrightarrow> u = UpdReturned"
  by (cases u) simp_all

lemma reachable_writer:
  "reachable as old c bs (n, u, m) \<Longrightarrow> b_mu_writer m \<Longrightarrow> Next_step n m = (n, m)"
  by (cases u; cases n) simp_all

lemma reachable_outside:
  "reachable as old c bs (n, u, m) \<Longrightarrow> \<not> holds_RLock n \<Longrightarrow>
   u = UpdLock \<longrightarrow> \<not> b_mu_writer m \<and> b_mu_readerCount m = 0"
  by (cases u; cases n) simp_all

lemma reachable_exclusion:
  "reachable as old c bs (n, u, m) \<Longrightarrow> holds_RLock n \<Longrightarrow>
   u = UpdLock \<and> b_backends m = old \<or> u = UpdReturned \<and> b_backends m = bs"
  by (cases u; cases n) simp_all

lemma concurrently_finish:
  assumes old: "valid_slice as old" and new: "valid_slice as bs"
    and r: "reachable as old c bs cfg"
  shows "\<exists>r m'. concurrently (replicate 7 True @ replicate 6 False @ replicate 7 True) bs cfg
    = (NextReturned r, UpdReturned, m')"
proof -
  obtain n u m where cfg: "cfg = (n, u, m)"
    by (cases cfg) auto
  note r0 = r [unfolded cfg]
  have "\<exists>n1 m1. concurrently (replicate 7 True) bs (n, u, m) = (n1, u, m1) \<and> \<not> holds_RLock n1"
  proof (cases "b_mu_writer m")
    case True
    with r0 have st: "Next_step n m = (n, m)"
      by (rule reachable_writer)
    have "\<not> holds_RLock n"
      using r0 True by (cases u; cases n) simp_all
    with Next_stutter [OF st] show ?thesis
      by blast
  next
    case False
    from Next_progress [OF False, of 7 bs n u] obtain n1 m1 where
      run: "concurrently (replicate 7 True) bs (n, u, m) = (n1, u, m1)"
      and rank: "Next_rank n1 \<le> Next_rank n - 7"
      by blast
    have "Next_rank n \<le> 7"
      by (cases n) simp_all
    with rank have z: "Next_rank n1 = 0"
      by simp
    have "reachable as old c bs (concurrently (replicate 7 True) bs (n, u, m))"
      using old new r0 by (rule reachable_concurrently)
    then have "n1 \<noteq> NextFault"
      unfolding run by (rule reachable_no_fault)
    with z obtain r where "n1 = NextReturned r"
      using Next_rank_0 by blast
    with run show ?thesis
      by auto
  qed
  then obtain n1 m1 where
    p1: "concurrently (replicate 7 True) bs (n, u, m) = (n1, u, m1)" and o1: "\<not> holds_RLock n1"
    by blast
  have "reachable as old c bs (concurrently (replicate 7 True) bs (n, u, m))"
    using old new r0 by (rule reachable_concurrently)
  then have r1: "reachable as old c bs (n1, u, m1)"
    unfolding p1 .
  from UpdateBackends_progress [OF reachable_outside [OF r1 o1], of 6 bs n1] obtain u2 m2 where
    run2: "concurrently (replicate 6 False) bs (n1, u, m1) = (n1, u2, m2)"
    and rank2: "UpdateBackends_rank u2 \<le> UpdateBackends_rank u - 6"
    by blast
  have "UpdateBackends_rank u \<le> 6"
    by (cases u) simp_all
  with rank2 have "UpdateBackends_rank u2 = 0"
    by simp
  then have u2: "u2 = UpdReturned"
    by (rule UpdateBackends_rank_0)
  have "reachable as old c bs (concurrently (replicate 6 False) bs (n1, u, m1))"
    using old new r1 by (rule reachable_concurrently)
  then have r2: "reachable as old c bs (n1, UpdReturned, m2)"
    unfolding run2 u2 .
  then have w2: "\<not> b_mu_writer m2"
    by simp
  from Next_progress [OF w2, of 7 bs n1 UpdReturned] obtain n3 m3 where
    run3: "concurrently (replicate 7 True) bs (n1, UpdReturned, m2) = (n3, UpdReturned, m3)"
    and rank3: "Next_rank n3 \<le> Next_rank n1 - 7"
    by blast
  have "Next_rank n1 \<le> 7"
    by (cases n1) simp_all
  with rank3 have z3: "Next_rank n3 = 0"
    by simp
  have "reachable as old c bs (concurrently (replicate 7 True) bs (n1, UpdReturned, m2))"
    using old new r2 by (rule reachable_concurrently)
  then have "n3 \<noteq> NextFault"
    unfolding run3 by (rule reachable_no_fault)
  with z3 obtain r where "n3 = NextReturned r"
    using Next_rank_0 by blast
  with p1 run2 u2 run3 show ?thesis
    by (simp add: cfg concurrently_append)
qed

text \<open>
  The steps themselves interleave freely: it is the mutex that keeps the two calls apart.
  From a configuration that no run reaches, with \<open>Next\<close> past \<open>RLock\<close> and not
  counted among the readers, the update takes the lock and stores the array pointer
  between two reads of \<open>Next\<close>, which takes its index from the old length and loads
  through the new pointer, outside the new array.
\<close>

lemma concurrently_outside_RLock:
  "concurrently [True, True, False, False, True, True, True] example_backends
     (NextLen, UpdLock, example_memory) =
   (NextFault, UpdLen,
    example_memory
      \<lparr>b_backends := \<lparr>array = 1, len = 3, cap = 3\<rparr>, b_counter := 3, b_mu_writer := True\<rparr>)"
  by (simp add: example_memory_def example_backends_def go_int_uint go_rem_nonneg)

text \<open>
  C7. One call of \<open>Next\<close> and one call of \<open>UpdateBackends\<close> run concurrently, from
  any balancer whose mutex is free, to any new list, under any schedule. At every moment
  of the run no array has been written (the update is a swap of the header, not a
  mutation in place), \<open>Next\<close> has not read outside an array, and while \<open>Next\<close> is
  between its \<open>RLock\<close> and \<open>RUnlock\<close> the update has either not taken the lock, and
  the header is the old one, or has returned, and the header is the new one: \<open>Next\<close>
  never reads a header of which only some words are written, nor one list at one step and
  the other list at a later step. When both calls have returned, the result of \<open>Next\<close>
  and the balancer are those of the two calls made one after the other, in one of the two
  orders: \<open>Next\<close> on the old list and then the update, which leaves the new list and the
  counter 0, or the update and then \<open>Next\<close> on the new list with the counter 0. Every
  run can be continued until both calls have returned. An update leaves the new list and
  the counter 0 whatever the state before, and the first \<open>Next\<close> after an update to a
  non-empty list returns the first element of the new list.
\<close>

theorem UpdateBackends_atomic_swap:
  assumes old: "valid_slice (arrays m) (b_backends m)"
    and new: "valid_slice (arrays m) bs"
    and free: "\<not> b_mu_writer m" "b_mu_readerCount m = 0"
    and run: "concurrently sched bs (NextRLock, UpdLock, m) = (n, u, m')"
  shows "arrays m' = arrays m \<and> n \<noteq> NextFault \<and>
    (holds_RLock n \<longrightarrow>
       u = UpdLock \<and> b_backends m' = b_backends m \<or> u = UpdReturned \<and> b_backends m' = bs) \<and>
    (n = NextReturned r \<and> u = UpdReturned \<longrightarrow>
       b_backends m' = bs \<and> \<not> b_mu_writer m' \<and> b_mu_readerCount m' = 0 \<and>
       (r = fst (Next (balancer_of m)) \<and>
          balancer_of m' =
            UpdateBackends (snd (Next (balancer_of m))) (slice_elems (arrays m) bs) \<or>
        (r, balancer_of m') =
          Next (UpdateBackends (balancer_of m) (slice_elems (arrays m) bs)))) \<and>
    (\<exists>r' m''.
       concurrently (sched @ replicate 7 True @ replicate 6 False @ replicate 7 True) bs
         (NextRLock, UpdLock, m) = (NextReturned r', UpdReturned, m'')) \<and>
    UpdateBackends b l = \<lparr>backends = l, counter = 0\<rparr> \<and>
    (l \<noteq> [] \<longrightarrow> fst (Next (UpdateBackends b l)) = Inr (hd l))"
proof -
  let ?as = "arrays m" and ?old = "b_backends m" and ?c = "b_counter m"
  have "reachable ?as ?old ?c bs (NextRLock, UpdLock, m)"
    using free by (rule reachable_initially)
  with old new have "reachable ?as ?old ?c bs (concurrently sched bs (NextRLock, UpdLock, m))"
    by (rule reachable_concurrently)
  then have r: "reachable ?as ?old ?c bs (n, u, m')"
    unfolding run .
  have heap: "arrays m' = arrays m"
    using r by (cases u) simp_all
  have fault: "n \<noteq> NextFault"
    using r by (rule reachable_no_fault)
  have excl: "u = UpdLock \<and> b_backends m' = b_backends m \<or> u = UpdReturned \<and> b_backends m' = bs"
    if "holds_RLock n"
    using r that by (rule reachable_exclusion)
  have fin: "b_backends m' = bs \<and> \<not> b_mu_writer m' \<and> b_mu_readerCount m' = 0 \<and>
       (r = fst (Next (balancer_of m)) \<and>
          balancer_of m' =
            UpdateBackends (snd (Next (balancer_of m))) (slice_elems (arrays m) bs) \<or>
        (r, balancer_of m') =
          Next (UpdateBackends (balancer_of m) (slice_elems (arrays m) bs)))"
    if "n = NextReturned r \<and> u = UpdReturned"
  proof -
    from that have n: "n = NextReturned r" and u: "u = UpdReturned"
      by simp_all
    note r' = r [unfolded n u]
    from r' have h: "b_backends m' = bs" "\<not> b_mu_writer m'"
      by simp_all
    have b: "balancer_of m = \<lparr>backends = slice_elems ?as ?old, counter = ?c\<rparr>"
      by (simp add: balancer_of_def)
    from reachable_returned [OF r'] h show ?thesis
      unfolding b by blast
  qed
  have "\<exists>r' m''. concurrently (replicate 7 True @ replicate 6 False @ replicate 7 True) bs
      (n, u, m') = (NextReturned r', UpdReturned, m'')"
    using old new r by (rule concurrently_finish)
  then have prog: "\<exists>r' m''.
       concurrently (sched @ replicate 7 True @ replicate 6 False @ replicate 7 True) bs
         (NextRLock, UpdLock, m) = (NextReturned r', UpdReturned, m'')"
    by (simp only: concurrently_append [of sched] run)
  have upd: "UpdateBackends b l = \<lparr>backends = l, counter = 0\<rparr>"
    by (simp add: UpdateBackends_def)
  have first: "fst (Next (UpdateBackends b l)) = Inr (hd l)" if "l \<noteq> []"
    using that by (simp add: Next_nonempty UpdateBackends_def hd_conv_nth)
  from heap fault excl fin prog upd first show ?thesis
    by blast
qed

text \<open>
  The theorem at three runs over \<open>example_memory\<close>: one stopped while \<open>Next\<close> holds
  the read lock and the update is blocked; one in which the update waits for \<open>Next\<close>,
  which returns \<open>"c"\<close> from the old list; and one in which \<open>Next\<close> waits for the
  update and returns \<open>"x"\<close>, the first element of the new list.
\<close>

theorem UpdateBackends_atomic_swap_witness:
  "valid_slice (arrays example_memory) (b_backends example_memory) \<and>
   valid_slice (arrays example_memory) example_backends \<and>
   \<not> b_mu_writer example_memory \<and> b_mu_readerCount example_memory = 0 \<and>
   balancer_of example_memory = \<lparr>backends = [''a'', ''b'', ''c''], counter = 2\<rparr> \<and>
   slice_elems (arrays example_memory) example_backends = [''x'', ''y''] \<and>
   (case concurrently [True, False, True] example_backends (NextRLock, UpdLock, example_memory) of
      (n, u, m') \<Rightarrow>
        n = NextAdd \<and> holds_RLock n \<and> u = UpdLock \<and>
        b_backends m' = b_backends example_memory) \<and>
   (case concurrently
       [True, False, True, True, False, True, True, True, True,
        False, False, False, False, False, False]
       example_backends (NextRLock, UpdLock, example_memory) of
      (n, u, m') \<Rightarrow>
        n = NextReturned (Inr ''c'') \<and> u = UpdReturned \<and>
        balancer_of m' = \<lparr>backends = [''x'', ''y''], counter = 0\<rparr>) \<and>
   (case concurrently
       [False, True, False, False, True, False, False, False,
        True, True, True, True, True, True, True]
       example_backends (NextRLock, UpdLock, example_memory) of
      (n, u, m') \<Rightarrow>
        n = NextReturned (Inr ''x'') \<and> u = UpdReturned \<and>
        balancer_of m' = \<lparr>backends = [''x'', ''y''], counter = 1\<rparr>)"
proof -
  let ?m = example_memory and ?bs = example_backends
  let ?init = "(NextRLock, UpdLock, ?m)"
  let ?run1 = "concurrently [True, False, True] ?bs ?init"
  let ?run2 = "concurrently
       [True, False, True, True, False, True, True, True, True,
        False, False, False, False, False, False] ?bs ?init"
  let ?run3 = "concurrently
       [False, True, False, False, True, False, False, False,
        True, True, True, True, True, True, True] ?bs ?init"
  have old: "valid_slice (arrays ?m) (b_backends ?m)"
    and new: "valid_slice (arrays ?m) ?bs"
    and free: "\<not> b_mu_writer ?m" "b_mu_readerCount ?m = 0"
    by code_simp+
  have b: "balancer_of ?m = \<lparr>backends = [''a'', ''b'', ''c''], counter = 2\<rparr>"
    and l: "slice_elems (arrays ?m) ?bs = [''x'', ''y'']"
    by code_simp+
  have seq: "Next \<lparr>backends = [''a'', ''b'', ''c''], counter = 2\<rparr> =
      (Inr ''c'', \<lparr>backends = [''a'', ''b'', ''c''], counter = 3\<rparr>)"
    "Next \<lparr>backends = [''x'', ''y''], counter = 0\<rparr> =
      (Inr ''x'', \<lparr>backends = [''x'', ''y''], counter = 1\<rparr>)"
    by code_simp+
  have p: "x = (fst x, fst (snd x), snd (snd x))" for x :: "Next_pc \<times> UpdateBackends_pc \<times> Memory"
    by simp
  have n1: "fst ?run1 = NextAdd" and u1: "fst (snd ?run1) = UpdLock"
    by code_simp+
  have n2: "fst ?run2 = NextReturned (Inr ''c'')" and u2: "fst (snd ?run2) = UpdReturned"
    by code_simp+
  have n3: "fst ?run3 = NextReturned (Inr ''x'')" and u3: "fst (snd ?run3) = UpdReturned"
    by code_simp+
  note inst1 = UpdateBackends_atomic_swap [OF old new free p [of ?run1]]
  note inst2 = UpdateBackends_atomic_swap [OF old new free p [of ?run2], of "Inr ''c''"]
  note inst3 = UpdateBackends_atomic_swap [OF old new free p [of ?run3], of "Inr ''x''"]
  from inst1 [THEN conjunct2, THEN conjunct2, THEN conjunct1]
  have r1: "b_backends (snd (snd ?run1)) = b_backends ?m"
    unfolding n1 u1 by (simp del: concurrently.simps)
  from inst2 [THEN conjunct2, THEN conjunct2, THEN conjunct2, THEN conjunct1]
  have r2: "balancer_of (snd (snd ?run2)) = \<lparr>backends = [''x'', ''y''], counter = 0\<rparr>"
    unfolding n2 u2 b l by (simp add: seq UpdateBackends_def del: concurrently.simps)
  from inst3 [THEN conjunct2, THEN conjunct2, THEN conjunct2, THEN conjunct1]
  have r3: "balancer_of (snd (snd ?run3)) = \<lparr>backends = [''x'', ''y''], counter = 1\<rparr>"
    unfolding n3 u3 b l by (simp add: seq UpdateBackends_def del: concurrently.simps)
  from old new free b l n1 u1 r1 n2 u2 r2 n3 u3 r3 show ?thesis
    by (simp add: split_beta del: concurrently.simps)
qed

section \<open>Route matching\<close>

lemma HasPrefix_prefix: "HasPrefix s pre = prefix pre s"
proof
  assume "HasPrefix s pre"
  then have "take (length pre) s = pre"
    by (simp add: HasPrefix_def)
  then have "s = pre @ drop (length pre) s"
    by (metis append_take_drop_id)
  then show "prefix pre s"
    by (rule prefixI)
next
  assume "prefix pre s"
  then show "HasPrefix s pre"
    by (auto simp: HasPrefix_def prefix_def)
qed

lemma HasSuffix_star: "HasSuffix s ''*'' = (s \<noteq> [] \<and> last s = CHR ''*'')"
proof (cases s rule: rev_cases)
  case Nil
  then show ?thesis by (simp add: HasSuffix_def)
next
  case (snoc ys y)
  then show ?thesis by (auto simp: HasSuffix_def)
qed

lemma TrimSuffix_star: "HasSuffix s ''*'' \<Longrightarrow> TrimSuffix s ''*'' = butlast s"
  by (simp add: TrimSuffix_def butlast_conv_take)

lemma pathMatches_pattern: "pathMatches path pat = pattern_matches pat path"
  by (simp add: pathMatches_def pattern_matches_def HasSuffix_star [symmetric] TrimSuffix_star HasPrefix_prefix)

lemma methodMatch_set: "methodMatch ms method = (method \<in> set ms)"
  by (induction ms) auto

lemma findRoute_loop_first:
  "findRoute_loop i routes path method =
     (case [j \<leftarrow> [0..<length routes]. route_matches (routes ! j) path method] of
        [] \<Rightarrow> None
      | j # _ \<Rightarrow> Some (routes ! j, ''route_'' @ Itoa (i + j)))"
proof (induction routes arbitrary: i)
  case Nil
  then show ?case by simp
next
  case (Cons r rs)
  have up: "[0..<length (r # rs)] = 0 # map Suc [0..<length rs]"
    by (simp add: upt_conv_Cons map_Suc_upt del: upt_Suc)
  show ?case
    unfolding up
    by (simp add: Cons.IH filter_map comp_def route_matches_def pathMatches_pattern methodMatch_set
        split: list.splits)
qed

text \<open>
  C5. \<open>pathMatches\<close> is the pattern match of the specification, and \<open>findRoute\<close>
  returns the first route, in configuration order, whose pattern matches the path and
  whose method list is empty or contains the method, with the key of its index; nothing
  ranks the routes. With \<open>["/api*", "/api/special"]\<close> a request to \<open>/api/special\<close>
  gets \<open>/api*\<close>.
\<close>

theorem findRoute_first_match:
  "pathMatches path pat =
     (if pat \<noteq> [] \<and> last pat = CHR ''*'' then prefix (butlast pat) path else prefix pat path) \<and>
   findRoute h path method =
     (case [j \<leftarrow> [0..<length (HTTPRoutes (config h))].
              route_matches (HTTPRoutes (config h) ! j) path method] of
        [] \<Rightarrow> None
      | j # _ \<Rightarrow> Some (HTTPRoutes (config h) ! j, ''route_'' @ Itoa j)) \<and>
   findRoute example_handler ''/api/special'' method = Some (example_route ''/api*'', ''route_0'')"
proof -
  have ex: "findRoute example_handler ''/api/special'' method
      = Some (example_route ''/api*'', ''route_0'')"
    by (simp add: findRoute_def example_handler_def example_route_def pathMatches_def
        HasSuffix_def HasPrefix_def TrimSuffix_def Itoa.simps)
  have pm: "pathMatches path pat =
      (if pat \<noteq> [] \<and> last pat = CHR ''*'' then prefix (butlast pat) path else prefix pat path)"
    by (simp add: pathMatches_pattern pattern_matches_def)
  have first: "findRoute h path method =
      (case [j \<leftarrow> [0..<length (HTTPRoutes (config h))].
               route_matches (HTTPRoutes (config h) ! j) path method] of
         [] \<Rightarrow> None
       | j # _ \<Rightarrow> Some (HTTPRoutes (config h) ! j, ''route_'' @ Itoa j))"
    by (simp add: findRoute_def findRoute_loop_first split: list.splits)
  from pm first ex show ?thesis
    by (intro conjI)
qed

section \<open>The connection pool\<close>

lemma steps_GetConnection:
  "steps 6 address useTLS skipVerify AtLoad (p, rt) =
     (case GetConnection (p, rt) address useTLS skipVerify of (r, st') \<Rightarrow> (Returned r, st'))"
  by (simp add: numeral_eq_Suc GetConnection_def create_and_store_def Let_def
      split: option.splits prod.splits sum.splits)


lemma create_and_store_ok:
  "dial_error rt address = None \<Longrightarrow>
   create_and_store (p, rt) address useTLS skipVerify =
     (Inr (length (conns rt)),
      p\<lparr>connections := (connections p)(address \<mapsto> length (conns rt))\<rparr>,
      rt\<lparr>conns := conns rt @
        [\<lparr>Target = address, UseTLS = useTLS, InsecureSkipVerify = (useTLS \<and> skipVerify),
          MaxCallMsgSize = maxMsgSize p, ConnState = Idle\<rparr>]\<rparr>)"
  by (simp add: create_and_store_def createConnection_def DialContext_def)

lemma create_and_store_fails:
  "dial_error rt address = Some msg \<Longrightarrow>
   create_and_store (p, rt) address useTLS skipVerify =
     (Inl (Errorf (''failed to dial '' @ address @ '': '' @ msg)), p, rt)"
  by (simp add: create_and_store_def createConnection_def DialContext_def)

lemma Close_frame [simp]:
  "dial_error (Close rt c) = dial_error rt" "length (conns (Close rt c)) = length (conns rt)"
  by (simp_all add: Close_def)

lemma GetState_Close:
  "c < length (conns rt) \<Longrightarrow>
   GetState ((Close rt c)\<lparr>conns := conns (Close rt c) @ new\<rparr>) c = Shutdown"
  by (simp add: GetState_def Close_def nth_append)

text \<open>
  C3, as stated, fails when the dial fails: a cached connection in a failed state is
  closed and removed, the error is returned, and no connection is created or stored.
\<close>

theorem GetConnection_dial_fails_counterexample:
  "fst (GetConnection
      (\<lparr>connections = [''b1'' \<mapsto> 0], maxMsgSize = 4\<rparr>,
       \<lparr>conns = [\<lparr>Target = ''b1'', UseTLS = False, InsecureSkipVerify = False,
                  MaxCallMsgSize = 4, ConnState = TransientFailure\<rparr>],
        dial_error = (\<lambda>_. Some ''connection refused'')\<rparr>) ''b1'' False False)
     = Inl (Errorf ''failed to dial b1: connection refused'') \<and>
   connections (fst (snd (GetConnection
      (\<lparr>connections = [''b1'' \<mapsto> 0], maxMsgSize = 4\<rparr>,
       \<lparr>conns = [\<lparr>Target = ''b1'', UseTLS = False, InsecureSkipVerify = False,
                  MaxCallMsgSize = 4, ConnState = TransientFailure\<rparr>],
        dial_error = (\<lambda>_. Some ''connection refused'')\<rparr>) ''b1'' False False))) ''b1''
     = None \<and>
   conns (snd (snd (GetConnection
      (\<lparr>connections = [''b1'' \<mapsto> 0], maxMsgSize = 4\<rparr>,
       \<lparr>conns = [\<lparr>Target = ''b1'', UseTLS = False, InsecureSkipVerify = False,
                  MaxCallMsgSize = 4, ConnState = TransientFailure\<rparr>],
        dial_error = (\<lambda>_. Some ''connection refused'')\<rparr>) ''b1'' False False)))
     = [\<lparr>Target = ''b1'', UseTLS = False, InsecureSkipVerify = False,
         MaxCallMsgSize = 4, ConnState = Shutdown\<rparr>]"
  by (simp add: GetConnection_def GetState_def usable_def Close_def create_and_store_def
      createConnection_def DialContext_def)

text \<open>
  C3, amended. A cached connection whose state is ready, idle or connecting is returned
  and nothing changes. A cached connection in any other state is closed and removed, and
  an absent one is simply missing; in both cases a connection is dialed: when the dial
  succeeds the fresh connection is stored under the address and returned, when it fails
  the error is returned and nothing is stored. A connection seen in another state than
  those three is never the one returned.
\<close>

theorem GetConnection_cases:
  "(connections p a = Some c \<and> GetState rt c \<in> {Ready, Idle, Connecting} \<longrightarrow>
      GetConnection (p, rt) a useTLS skipVerify = (Inr c, p, rt)) \<and>
   (connections p a = Some c \<and> GetState rt c \<notin> {Ready, Idle, Connecting} \<and>
    c < length (conns rt) \<and> dial_error rt a = None \<longrightarrow>
      GetConnection (p, rt) a useTLS skipVerify =
        (Inr (length (conns rt)),
         p\<lparr>connections := (connections p)(a \<mapsto> length (conns rt))\<rparr>,
         (Close rt c)\<lparr>conns := conns (Close rt c) @
           [\<lparr>Target = a, UseTLS = useTLS, InsecureSkipVerify = (useTLS \<and> skipVerify),
             MaxCallMsgSize = maxMsgSize p, ConnState = Idle\<rparr>]\<rparr>) \<and>
      length (conns rt) \<noteq> c \<and>
      GetState (snd (snd (GetConnection (p, rt) a useTLS skipVerify))) c = Shutdown) \<and>
   (connections p a = None \<and> dial_error rt a = None \<longrightarrow>
      GetConnection (p, rt) a useTLS skipVerify =
        (Inr (length (conns rt)),
         p\<lparr>connections := (connections p)(a \<mapsto> length (conns rt))\<rparr>,
         rt\<lparr>conns := conns rt @
           [\<lparr>Target = a, UseTLS = useTLS, InsecureSkipVerify = (useTLS \<and> skipVerify),
             MaxCallMsgSize = maxMsgSize p, ConnState = Idle\<rparr>]\<rparr>)) \<and>
   (connections p a = Some c \<and> GetState rt c \<notin> {Ready, Idle, Connecting} \<and>
    dial_error rt a = Some msg \<longrightarrow>
      GetConnection (p, rt) a useTLS skipVerify =
        (Inl (Errorf (''failed to dial '' @ a @ '': '' @ msg)),
         p\<lparr>connections := (connections p)(a := None)\<rparr>, Close rt c)) \<and>
   (connections p a = None \<and> dial_error rt a = Some msg \<longrightarrow>
      GetConnection (p, rt) a useTLS skipVerify =
        (Inl (Errorf (''failed to dial '' @ a @ '': '' @ msg)), p, rt)) \<and>
   (connections p a = Some c \<and> GetState rt c \<notin> {Ready, Idle, Connecting} \<and>
    c < length (conns rt) \<longrightarrow>
      fst (GetConnection (p, rt) a useTLS skipVerify) \<noteq> Inr c)"
proof -
  have u: "usable s = (s \<in> {Ready, Idle, Connecting})" for s
    by (auto simp: usable_def)
  have reuse: "GetConnection (p, rt) a useTLS skipVerify = (Inr c, p, rt)"
    if "connections p a = Some c" "GetState rt c \<in> {Ready, Idle, Connecting}"
    using that by (simp add: GetConnection_def u)
  have stale: "GetConnection (p, rt) a useTLS skipVerify =
      create_and_store (p\<lparr>connections := (connections p)(a := None)\<rparr>, Close rt c)
        a useTLS skipVerify"
    if "connections p a = Some c" "GetState rt c \<notin> {Ready, Idle, Connecting}"
    using that by (simp add: GetConnection_def u)
  have absent: "GetConnection (p, rt) a useTLS skipVerify =
      create_and_store (p, rt) a useTLS skipVerify"
    if "connections p a = None"
    using that by (simp add: GetConnection_def)
  have never: "fst (GetConnection (p, rt) a useTLS skipVerify) \<noteq> Inr c"
    if "connections p a = Some c" "GetState rt c \<notin> {Ready, Idle, Connecting}"
      "c < length (conns rt)"
  proof (cases "dial_error rt a")
    case None
    then show ?thesis
      using that by (simp add: stale create_and_store_ok)
  next
    case (Some msg)
    then show ?thesis
      using that by (simp add: stale create_and_store_fails)
  qed
  show ?thesis
    using never
    by (auto simp: reuse stale absent create_and_store_ok create_and_store_fails GetState_Close
        simp del: insert_iff)
qed

definition rt0 :: Runtime where "rt0 = \<lparr>conns = [], dial_error = (\<lambda>_. None)\<rparr>"

theorem GetConnection_cases_witness:
  "GetConnection
     (\<lparr>connections = [''b1'' \<mapsto> 0], maxMsgSize = 4\<rparr>,
      \<lparr>conns = [\<lparr>Target = ''b1'', UseTLS = False, InsecureSkipVerify = False,
                 MaxCallMsgSize = 4, ConnState = Ready\<rparr>],
       dial_error = (\<lambda>_. None)\<rparr>) ''b1'' False False
   = (Inr 0,
      \<lparr>connections = [''b1'' \<mapsto> 0], maxMsgSize = 4\<rparr>,
      \<lparr>conns = [\<lparr>Target = ''b1'', UseTLS = False, InsecureSkipVerify = False,
                 MaxCallMsgSize = 4, ConnState = Ready\<rparr>],
       dial_error = (\<lambda>_. None)\<rparr>) \<and>
   GetConnection
     (\<lparr>connections = [''b1'' \<mapsto> 0], maxMsgSize = 4\<rparr>,
      \<lparr>conns = [\<lparr>Target = ''b1'', UseTLS = False, InsecureSkipVerify = False,
                 MaxCallMsgSize = 4, ConnState = TransientFailure\<rparr>],
       dial_error = (\<lambda>_. None)\<rparr>) ''b1'' False False
   = (Inr 1,
      \<lparr>connections = [''b1'' \<mapsto> 1], maxMsgSize = 4\<rparr>,
      \<lparr>conns = [\<lparr>Target = ''b1'', UseTLS = False, InsecureSkipVerify = False,
                 MaxCallMsgSize = 4, ConnState = Shutdown\<rparr>,
               \<lparr>Target = ''b1'', UseTLS = False, InsecureSkipVerify = False,
                 MaxCallMsgSize = 4, ConnState = Idle\<rparr>],
       dial_error = (\<lambda>_. None)\<rparr>) \<and>
   GetConnection
     (\<lparr>connections = Map.empty, maxMsgSize = 4\<rparr>,
      \<lparr>conns = [], dial_error = (\<lambda>_. None)\<rparr>) ''b1'' False False
   = (Inr 0,
      \<lparr>connections = [''b1'' \<mapsto> 0], maxMsgSize = 4\<rparr>,
      \<lparr>conns = [\<lparr>Target = ''b1'', UseTLS = False, InsecureSkipVerify = False,
                 MaxCallMsgSize = 4, ConnState = Idle\<rparr>],
       dial_error = (\<lambda>_. None)\<rparr>) \<and>
   GetConnection
     (\<lparr>connections = Map.empty, maxMsgSize = 4\<rparr>,
      \<lparr>conns = [], dial_error = (\<lambda>_. Some ''connection refused'')\<rparr>) ''b1'' False False
   = (Inl (Errorf ''failed to dial b1: connection refused''),
      \<lparr>connections = Map.empty, maxMsgSize = 4\<rparr>,
      \<lparr>conns = [], dial_error = (\<lambda>_. Some ''connection refused'')\<rparr>)"
proof -
  let ?conn = "\<lambda>s. \<lparr>Target = ''b1'', UseTLS = False, InsecureSkipVerify = False,
                     MaxCallMsgSize = 4, ConnState = s\<rparr>"
  let ?p = "\<lparr>connections = [''b1'' \<mapsto> 0], maxMsgSize = 4\<rparr>"
  let ?e = "\<lparr>connections = Map.empty, maxMsgSize = 4\<rparr>"
  let ?ok = "\<lambda>_ :: string. None :: string option"
  let ?no = "\<lambda>_ :: string. Some ''connection refused''"
  have reuse: "GetConnection (?p, \<lparr>conns = [?conn Ready], dial_error = ?ok\<rparr>) ''b1'' False False
      = (Inr 0, ?p, \<lparr>conns = [?conn Ready], dial_error = ?ok\<rparr>)"
    using GetConnection_cases
      [where p = ?p and a = "''b1''" and c = 0
        and rt = "\<lparr>conns = [?conn Ready], dial_error = ?ok\<rparr>"
        and useTLS = False and skipVerify = False]
    by (simp add: GetState_def)
  have stale: "GetConnection (?p, \<lparr>conns = [?conn TransientFailure], dial_error = ?ok\<rparr>)
        ''b1'' False False
      = (Inr 1, \<lparr>connections = [''b1'' \<mapsto> 1], maxMsgSize = 4\<rparr>,
         \<lparr>conns = [?conn Shutdown, ?conn Idle], dial_error = ?ok\<rparr>)"
    using GetConnection_cases
      [where p = ?p and a = "''b1''" and c = 0
        and rt = "\<lparr>conns = [?conn TransientFailure], dial_error = ?ok\<rparr>"
        and useTLS = False and skipVerify = False]
    by (simp add: GetState_def Close_def)
  have absent: "GetConnection (?e, \<lparr>conns = [], dial_error = ?ok\<rparr>) ''b1'' False False
      = (Inr 0, ?p, \<lparr>conns = [?conn Idle], dial_error = ?ok\<rparr>)"
    using GetConnection_cases
      [where p = ?e and a = "''b1''" and rt = "\<lparr>conns = [], dial_error = ?ok\<rparr>"
        and useTLS = False and skipVerify = False]
    by simp
  have fails: "GetConnection (?e, \<lparr>conns = [], dial_error = ?no\<rparr>) ''b1'' False False
      = (Inl (Errorf ''failed to dial b1: connection refused''), ?e,
         \<lparr>conns = [], dial_error = ?no\<rparr>)"
    using GetConnection_cases
      [where p = ?e and a = "''b1''" and rt = "\<lparr>conns = [], dial_error = ?no\<rparr>"
        and useTLS = False and skipVerify = False and msg = "''connection refused''"]
    by simp
  from reuse stale absent fails show ?thesis
    by (simp only: simp_thms)
qed

text \<open>
  C4. Two calls for one address on an empty pool, their operations interleaved as
  load, load, dial, dial, store, store: both find no entry, both dial, and two
  connections exist at the end. The map holds the second; the first is held by its
  caller only, open and never closed by the pool.
\<close>

theorem GetConnection_race_two_dials:
  "interleave [True, False, True, False, True, False] ''b1''
     (AtLoad, AtLoad, NewConnectionPool 4, \<lparr>conns = [], dial_error = (\<lambda>_. None)\<rparr>) =
   (Returned (Inr 0), Returned (Inr 1),
    \<lparr>connections = [''b1'' \<mapsto> 1], maxMsgSize = 4\<rparr>,
    \<lparr>conns = [\<lparr>Target = ''b1'', UseTLS = False, InsecureSkipVerify = False,
                MaxCallMsgSize = 4, ConnState = Idle\<rparr>,
              \<lparr>Target = ''b1'', UseTLS = False, InsecureSkipVerify = False,
                MaxCallMsgSize = 4, ConnState = Idle\<rparr>],
     dial_error = (\<lambda>_. None)\<rparr>)"
  by (simp add: NewConnectionPool_def createConnection_def DialContext_def)



end
